theory Spec2Isabelle
  imports Complex_Main
begin

section \<open>Loan amortisation with rental cash flow: the model of \<open>app.py\<close>\<close>

text \<open>
  The program computes the fixed monthly installment (EMI) of a loan and a month-by-month
  amortisation schedule with a rent projection.

  Numbers. The source computes on Python numbers (\<open>int\<close> and \<open>float\<close>). Every
  finite Python number is a rational, and the model computes on \<^typ>\<open>rat\<close> with exact
  arithmetic: the rounding error of each binary floating-point operation and the overflow
  of a float are outside this model. What Python does by raising is a value of the
  model: a true division by zero is \<open>Inl ZeroDivisionError\<close>. Integers that the source
  uses as counters (\<open>years\<close>, \<open>month\<close>, \<open>vacancy_months\<close>) are \<^typ>\<open>int\<close>.
\<close>

subsection \<open>Python's arithmetic\<close>

datatype py_error = ZeroDivisionError

text \<open>\<open>a / b\<close>: Python raises on a zero divisor, whatever the dividend.\<close>

definition py_truediv :: "rat \<Rightarrow> rat \<Rightarrow> py_error + rat" where
  "py_truediv a b = (if b = 0 then Inl ZeroDivisionError else Inr (a / b))"

text \<open>
  \<open>x ** n\<close> for an integer exponent: a negative exponent is the reciprocal of the
  positive power, and zero to a negative power raises.
\<close>

definition py_pow :: "rat \<Rightarrow> int \<Rightarrow> py_error + rat" where
  "py_pow x n =
     (if 0 \<le> n then Inr (x ^ nat n)
      else if x = 0 then Inl ZeroDivisionError
      else Inr (1 / x ^ nat (- n)))"

text \<open>
  \<open>round(x, 2)\<close>: Python 3 rounds the exact value to the nearest multiple of \<open>0.01\<close>,
  a tie going to the even neighbour.
\<close>

definition round_half_even :: "rat \<Rightarrow> int" where
  "round_half_even y =
     (let f = \<lfloor>y\<rfloor>; d = y - of_int f
      in if d < 1 / 2 then f
         else if 1 / 2 < d then f + 1
         else if even f then f else f + 1)"

definition py_round2 :: "rat \<Rightarrow> rat" where
  "py_round2 x = of_int (round_half_even (x * 100)) / 100"

subsection \<open>\<open>calculate_emi\<close>\<close>

text \<open>
  \<^verbatim>\<open>
  def calculate_emi(P, annual_rate, years):
      r = annual_rate / (12 * 100)
      n = years * 12
      emi = P * r * (1 + r) ** n / ((1 + r) ** n - 1)
      return emi
  \<close>
  The power is evaluated twice, as the source writes it; the division is the last
  operation and the only one that can raise for a non-negative \<open>n\<close>.
\<close>

definition calculate_emi :: "rat \<Rightarrow> rat \<Rightarrow> int \<Rightarrow> py_error + rat" where
  "calculate_emi P annual_rate years =
     (let r = annual_rate / (12 * 100);
          n = years * 12
      in case py_pow (1 + r) n of
           Inl e \<Rightarrow> Inl e
         | Inr q1 \<Rightarrow>
             (case py_pow (1 + r) n of
                Inl e \<Rightarrow> Inl e
              | Inr q2 \<Rightarrow> py_truediv (P * r * q1) (q2 - 1)))"

subsection \<open>\<open>generate_amortization\<close>\<close>

text \<open>One dictionary of \<open>rows\<close>; the field names are the column names of the source.\<close>

record row =
  Year :: int
  Month :: int
  Principal_Paid :: rat
  Interest_Charged :: rat
  Total_EMI :: rat
  Outstanding_Balance :: rat
  Rent_Received :: rat
  Amount_Paid_by_User :: rat

text \<open>
  The body of \<open>for month in range(1, tenure_years * 12 + 1)\<close>, as a recursion over the
  months still to come, with the running \<open>balance\<close> passed along (it is not clamped:
  only the emitted field is). \<open>year = (month - 1) // 12\<close> is not negative for a month
  of the range, so the power \<open>** year\<close> is a power with a natural exponent and cannot
  raise.
\<close>

fun amortization_rows ::
  "rat \<Rightarrow> rat \<Rightarrow> rat \<Rightarrow> rat \<Rightarrow> int \<Rightarrow> int list \<Rightarrow> rat \<Rightarrow> row list" where
  "amortization_rows emi monthly_rate base_monthly_rent annual_rent_increase vacancy_months
     [] balance = []"
| "amortization_rows emi monthly_rate base_monthly_rent annual_rent_increase vacancy_months
     (month # months) balance =
     (let year = (month - 1) div 12;
          escalated_rent = base_monthly_rent * ((1 + annual_rent_increase / 100) ^ nat year);
          effective_rent =
            (if (month - 1) mod 12 \<ge> 12 - vacancy_months then 0 else escalated_rent);
          interest = balance * monthly_rate;
          principal = emi - interest;
          balance' = balance - principal
      in \<lparr> Year = year + 1,
           Month = month,
           Principal_Paid = py_round2 principal,
           Interest_Charged = py_round2 interest,
           Total_EMI = py_round2 emi,
           Outstanding_Balance = py_round2 (max balance' 0),
           Rent_Received = py_round2 effective_rent,
           Amount_Paid_by_User = py_round2 (emi - effective_rent) \<rparr>
         # amortization_rows emi monthly_rate base_monthly_rent annual_rent_increase
             vacancy_months months balance')"

text \<open>
  The function returns the data frame of the rows and the unrounded \<open>emi\<close>; an
  exception of \<open>calculate_emi\<close> leaves it before any row is built.
\<close>

definition generate_amortization ::
  "rat \<Rightarrow> rat \<Rightarrow> rat \<Rightarrow> int \<Rightarrow> rat \<Rightarrow> rat \<Rightarrow> int \<Rightarrow> py_error + (row list \<times> rat)" where
  "generate_amortization property_value down_payment_percent annual_interest_rate
     tenure_years base_monthly_rent annual_rent_increase vacancy_months =
     (let down_payment = property_value * down_payment_percent / 100;
          loan_amount = property_value - down_payment
      in case calculate_emi loan_amount annual_interest_rate tenure_years of
           Inl e \<Rightarrow> Inl e
         | Inr emi \<Rightarrow>
             (let monthly_rate = annual_interest_rate / (12 * 100)
              in Inr (amortization_rows emi monthly_rate base_monthly_rent
                        annual_rent_increase vacancy_months
                        [1 .. tenure_years * 12] loan_amount,
                      emi)))"

subsection \<open>The break-even year of the summary\<close>

text \<open>
  \<^verbatim>\<open>
  break_even_year = None
  for year in df["Year"].unique():
      yearly = df[df["Year"] == year]
      if yearly["Rent Received"].mean() >= emi:
          break_even_year = year
          break
  \<close>
  \<open>unique\<close> lists the values in the order of their first appearance. The mean of an
  empty series is NaN (here \<open>None\<close>), and a comparison with NaN is false.
\<close>

fun unique :: "'a list \<Rightarrow> 'a list" where
  "unique [] = []"
| "unique (x # xs) = x # unique (filter (\<lambda>y. y \<noteq> x) xs)"

definition series_mean :: "rat list \<Rightarrow> rat option" where
  "series_mean xs = (if xs = [] then None else Some (sum_list xs / of_nat (length xs)))"

fun break_even_scan :: "row list \<Rightarrow> rat \<Rightarrow> int list \<Rightarrow> int option" where
  "break_even_scan df emi [] = None"
| "break_even_scan df emi (year # years) =
     (let yearly = filter (\<lambda>r. Year r = year) df
      in if (case series_mean (map Rent_Received yearly) of
               None \<Rightarrow> False
             | Some m \<Rightarrow> emi \<le> m)
         then Some year
         else break_even_scan df emi years)"

definition break_even_year :: "row list \<Rightarrow> rat \<Rightarrow> int option" where
  "break_even_year df emi = break_even_scan df emi (unique (map Year df))"

subsection \<open>Notions used by the statements\<close>

text \<open>
  The value of the loop's variable \<open>balance\<close> after \<open>k\<close> iterations: each iteration
  subtracts \<open>principal = emi - balance * monthly_rate\<close>.
\<close>

primrec balance_after :: "rat \<Rightarrow> rat \<Rightarrow> rat \<Rightarrow> nat \<Rightarrow> rat" where
  "balance_after emi monthly_rate loan_amount 0 = loan_amount"
| "balance_after emi monthly_rate loan_amount (Suc k) =
     balance_after emi monthly_rate loan_amount k
       - (emi - balance_after emi monthly_rate loan_amount k * monthly_rate)"

text \<open>
  The row the loop emits for \<open>month\<close> when it enters the iteration with \<open>balance\<close>:
  the body of the loop once more, for statements about the row at a given position.
\<close>

definition row_of_month :: "rat \<Rightarrow> rat \<Rightarrow> rat \<Rightarrow> rat \<Rightarrow> int \<Rightarrow> int \<Rightarrow> rat \<Rightarrow> row" where
  "row_of_month emi monthly_rate base_monthly_rent annual_rent_increase vacancy_months
     month balance =
     hd (amortization_rows emi monthly_rate base_monthly_rent annual_rent_increase
           vacancy_months [month] balance)"

text \<open>The test of the loop for a vacant month.\<close>

definition vacant :: "int \<Rightarrow> int \<Rightarrow> bool" where
  "vacant vacancy_months month \<longleftrightarrow> (month - 1) mod 12 \<ge> 12 - vacancy_months"

text \<open>The rows of year \<open>y\<close> and the mean of their rent, \<open>sum / count\<close>.\<close>

definition rows_of_year :: "row list \<Rightarrow> int \<Rightarrow> row list" where
  "rows_of_year df y = filter (\<lambda>r. Year r = y) df"

definition year_rent_mean :: "row list \<Rightarrow> int \<Rightarrow> rat" where
  "year_rent_mean df y =
     sum_list (map Rent_Received (rows_of_year df y)) / of_nat (length (rows_of_year df y))"

text \<open>
  The rows of a call that returned (no row when it raised), and the fields of a row that
  do not hold rent.
\<close>

definition returned_rows :: "py_error + (row list \<times> rat) \<Rightarrow> row list" where
  "returned_rows res = (case res of Inl e \<Rightarrow> [] | Inr (df, emi) \<Rightarrow> df)"


section \<open>Facts about the arithmetic\<close>

lemma power_gt_one_rat: "0 < (r::rat) \<Longrightarrow> 0 < n \<Longrightarrow> 1 < (1 + r) ^ n"
  by (simp add: one_less_power)

lemma calculate_emi_returns:
  assumes "0 < annual_rate" and "0 < years"
  shows "calculate_emi P annual_rate years =
           Inr (P * (annual_rate / (12 * 100)) * (1 + annual_rate / (12 * 100)) ^ nat (years * 12)
                / ((1 + annual_rate / (12 * 100)) ^ nat (years * 12) - 1))"
proof -
  have "0 < annual_rate / (12 * 100)" using assms(1) by simp
  moreover have "0 < nat (years * 12)" using assms(2) by simp
  ultimately have "1 < (1 + annual_rate / (12 * 100)) ^ nat (years * 12)"
    by (rule power_gt_one_rat)
  then have "(1 + annual_rate / (12 * 100)) ^ nat (years * 12) - 1 \<noteq> 0" by simp
  moreover have "0 \<le> years * 12" using assms(2) by simp
  ultimately show ?thesis
    by (simp add: calculate_emi_def py_pow_def py_truediv_def Let_def)
qed

lemma round_half_even_error: "\<bar>of_int (round_half_even y) - y\<bar> \<le> 1 / 2"
proof -
  have "of_int \<lfloor>y\<rfloor> \<le> y" "y < of_int \<lfloor>y\<rfloor> + 1" by linarith+
  then show ?thesis
    by (auto simp: round_half_even_def Let_def)
qed

lemma round_half_even_of_int [simp]: "round_half_even (of_int k) = k"
  by (simp add: round_half_even_def)

lemma round_half_even_mono:
  assumes "x \<le> y"
  shows "round_half_even x \<le> round_half_even y"
proof (cases "\<lfloor>x\<rfloor> = \<lfloor>y\<rfloor>")
  case True
  with assms show ?thesis
    by (auto simp: round_half_even_def Let_def)
next
  case False
  with assms have "\<lfloor>x\<rfloor> + 1 \<le> \<lfloor>y\<rfloor>"
    using floor_mono [of x y] by linarith
  moreover have "round_half_even x \<le> \<lfloor>x\<rfloor> + 1"
    by (auto simp: round_half_even_def Let_def)
  moreover have "\<lfloor>y\<rfloor> \<le> round_half_even y"
    by (auto simp: round_half_even_def Let_def)
  ultimately show ?thesis by linarith
qed

lemma py_round2_mono: "x \<le> y \<Longrightarrow> py_round2 x \<le> py_round2 y"
  by (simp add: py_round2_def round_half_even_mono divide_right_mono)

lemma py_round2_0 [simp]: "py_round2 0 = 0"
  using round_half_even_of_int [of 0] by (simp add: py_round2_def)


lemma py_round2_cent: "py_round2 (1 / 100) = 1 / 100"
  using round_half_even_of_int [of 1] by (simp add: py_round2_def)

lemma py_round2_ge_cent: "1 / 100 \<le> x \<Longrightarrow> 1 / 100 \<le> py_round2 x"
  using py_round2_mono [of "1 / 100" x] by (simp add: py_round2_cent)

lemma py_round2_error: "\<bar>py_round2 x - x\<bar> \<le> 1 / 200"
proof -
  define a where "a = of_int (round_half_even (x * 100)) - x * 100"
  have "\<bar>a\<bar> \<le> 1 / 2"
    unfolding a_def by (rule round_half_even_error)
  then have bound: "\<bar>a / 100\<bar> \<le> 1 / 200" by simp
  have eq: "py_round2 x - x = a / 100"
    by (simp add: py_round2_def a_def diff_divide_distrib)
  show ?thesis unfolding eq by (rule bound)
qed

text \<open>Evaluating \<open>round(x, 2)\<close> at a numeral.\<close>

lemma floor_numeral_quotient_rat:
  "\<lfloor>numeral a / numeral b :: rat\<rfloor> = numeral a div numeral b"
  by (metis floor_divide_of_int_eq of_int_numeral)

lemma floor_one_quotient_rat:
  "\<lfloor>1 / numeral b :: rat\<rfloor> = 1 div numeral b"
  by (metis floor_divide_of_int_eq of_int_1 of_int_numeral)

lemmas py_round2_eval =
  py_round2_def round_half_even_def Let_def floor_numeral_quotient_rat floor_one_quotient_rat



section \<open>The installment\<close>




text \<open>
  Claim C2. With an annual rate of exactly \<open>0\<close> the call is rejected: the division
  raises (Python's \<open>ZeroDivisionError\<close>) and no value, NaN or infinity, is returned.
  This holds for every principal and every number of years.
\<close>

theorem calculate_emi_zero_rate:
  "calculate_emi P 0 years = Inl ZeroDivisionError"
  by (simp add: calculate_emi_def py_pow_def py_truediv_def Let_def)



section \<open>The rows of the schedule\<close>

lemma length_amortization_rows [simp]:
  "length (amortization_rows emi mr base g v ms bal) = length ms"
  by (induction ms arbitrary: bal) (simp_all add: Let_def)

lemma balance_after_shift:
  "balance_after emi mr (bal - (emi - bal * mr)) k = balance_after emi mr bal (Suc k)"
  by (induction k) simp_all

lemma amortization_rows_nth:
  "i < length ms \<Longrightarrow>
   amortization_rows emi mr base g v ms bal ! i =
     row_of_month emi mr base g v (ms ! i) (balance_after emi mr bal i)"
proof (induction ms arbitrary: i bal)
  case Nil
  then show ?case by simp
next
  case (Cons m ms)
  show ?case
  proof (cases i)
    case 0
    then show ?thesis by (simp add: row_of_month_def Let_def)
  next
    case (Suc j)
    with Cons.prems have "j < length ms" by simp
    from Cons.IH [OF this, of "bal - (emi - bal * mr)"] Suc
    show ?thesis by (simp add: Let_def balance_after_shift del: balance_after.simps)
  qed
qed

lemma row_of_month_fields:
  "Year (row_of_month emi mr base g v m b) = (m - 1) div 12 + 1"
  "Month (row_of_month emi mr base g v m b) = m"
  "Principal_Paid (row_of_month emi mr base g v m b) = py_round2 (emi - b * mr)"
  "Interest_Charged (row_of_month emi mr base g v m b) = py_round2 (b * mr)"
  "Total_EMI (row_of_month emi mr base g v m b) = py_round2 emi"
  "Outstanding_Balance (row_of_month emi mr base g v m b) =
     py_round2 (max (b - (emi - b * mr)) 0)"
  "Rent_Received (row_of_month emi mr base g v m b) =
     py_round2 (if vacant v m then 0 else base * (1 + g / 100) ^ nat ((m - 1) div 12))"
  "Amount_Paid_by_User (row_of_month emi mr base g v m b) =
     py_round2 (emi - (if vacant v m then 0 else base * (1 + g / 100) ^ nat ((m - 1) div 12)))"
  by (simp_all add: row_of_month_def vacant_def Let_def)

lemma upto_months_nth: "i < nat (n::int) \<Longrightarrow> [1 .. n] ! i = int i + 1"
  by simp

lemma generate_amortization_cases:
  assumes "generate_amortization pv dpp rate T base g v = Inr (df, emi)"
  shows "calculate_emi (pv - pv * dpp / 100) rate T = Inr emi"
    and "df = amortization_rows emi (rate / (12 * 100)) base g v [1 .. T * 12]
                (pv - pv * dpp / 100)"
  using assms by (auto simp: generate_amortization_def Let_def split: sum.splits)

lemma generate_amortization_length:
  assumes "generate_amortization pv dpp rate T base g v = Inr (df, emi)"
  shows "length df = nat (T * 12)"
  using generate_amortization_cases(2) [OF assms] by simp

lemma generate_amortization_nth:
  assumes "generate_amortization pv dpp rate T base g v = Inr (df, emi)"
    and "i < length df"
  shows "df ! i = row_of_month emi (rate / (12 * 100)) base g v (int i + 1)
                    (balance_after emi (rate / (12 * 100)) (pv - pv * dpp / 100) i)"
proof -
  have len: "i < nat (T * 12)"
    using assms(2) generate_amortization_length [OF assms(1)] by simp
  then have "i < length [1 .. T * 12]" by simp
  then show ?thesis
    unfolding generate_amortization_cases(2) [OF assms(1)]
    by (simp add: amortization_rows_nth upto_months_nth [OF len] del: balance_after.simps)
qed

lemma generate_amortization_returns:
  assumes "0 < rate" and "0 < T"
  shows "\<exists>df emi. generate_amortization pv dpp rate T base g v = Inr (df, emi)"
  using calculate_emi_returns [OF assms]
  by (simp add: generate_amortization_def Let_def)

lemma returned_rows_Inr [simp]: "returned_rows (Inr (df, emi)) = df"
  by (simp add: returned_rows_def)

section \<open>Properties of the emitted rows\<close>





text \<open>
  The first row of a loan of 1000 at 7 percent over one year, used by the concrete
  cases below.
\<close>

lemma first_row_1000_7_1:
  assumes ret: "generate_amortization 1000 0 7 1 base g v = Inr (df, emi)"
  shows "length df = 12"
    and "emi = 47803230352913726563491860620656732005 / 552467676280067410884318963541154058"
    and "df ! 0 = row_of_month emi (7 / (12 * 100)) base g v 1 1000"
proof -
  show len: "length df = 12"
    using generate_amortization_length [OF ret] by simp
  show "emi = 47803230352913726563491860620656732005 / 552467676280067410884318963541154058"
    using generate_amortization_cases(1) [OF ret] calculate_emi_returns [of 7 1 1000]
    by (simp add: power_divide)
  show "df ! 0 = row_of_month emi (7 / (12 * 100)) base g v 1 1000"
    using generate_amortization_nth [OF ret, of 0] len by simp
qed





section \<open>Rent: vacancy and escalation\<close>

lemma count_mod_window:
  assumes "0 < n"
  shows "length (filter (\<lambda>k. Q (k mod n)) [i ..< i + n]) = length (filter Q [0 ..< n])"
proof (induction i)
  case 0
  have "filter (\<lambda>k. Q (k mod n)) [0 ..< n] = filter Q [0 ..< n]"
    by (rule filter_cong) simp_all
  then show ?case by simp
next
  case (Suc i)
  have first: "[i ..< i + n] = i # [Suc i ..< i + n]"
    using assms by (simp add: upt_conv_Cons)
  have final: "[Suc i ..< Suc i + n] = [Suc i ..< i + n] @ [i + n]"
    using assms by simp
  have "(i + n) mod n = i mod n" by simp
  then show ?case
    using Suc.IH unfolding first final by (auto split: if_splits)
qed

lemma count_ge_upt: "length (filter (\<lambda>k. c \<le> k) [0 ..< n]) = n - c"
  by (induction n) auto

lemma take_drop_nth: "i + n \<le> length xs \<Longrightarrow> take n (drop i xs) = map (\<lambda>k. xs ! k) [i ..< i + n]"
  by (rule nth_equalityI) simp_all

lemma escalated_rent_ge:
  fixes base g :: rat
  assumes "1 / 100 \<le> base" and "0 \<le> g"
  shows "1 / 100 \<le> base * (1 + g / 100) ^ k"
proof -
  have "1 \<le> (1 + g / 100) ^ k"
    by (rule one_le_power) (use assms(2) in simp)
  then have "base * 1 \<le> base * (1 + g / 100) ^ k"
    using assms(1) by (intro mult_left_mono) simp_all
  then have "base \<le> base * (1 + g / 100) ^ k" by (simp only: mult_1_right)
  with assms(1) show ?thesis by (rule order_trans)
qed

lemma generate_amortization_rent:
  assumes "generate_amortization pv dpp rate T base g v = Inr (df, emi)"
    and "i < length df"
  shows "Rent_Received (df ! i) =
           py_round2 (if vacant v (int i + 1) then 0
                      else base * (1 + g / 100) ^ nat (int i div 12))"
    and "Month (df ! i) = int i + 1"
    and "Year (df ! i) = int i div 12 + 1"
  by (simp_all add: generate_amortization_nth [OF assms] row_of_month_fields
        del: balance_after.simps)

lemma rent_zero_iff_vacant:
  assumes ret: "generate_amortization pv dpp rate T base g v = Inr (df, emi)"
    and base: "1 / 100 \<le> base" and g: "0 \<le> g"
    and i: "i < length df"
  shows "Rent_Received (df ! i) = 0 \<longleftrightarrow> vacant v (int i + 1)"
proof (cases "vacant v (int i + 1)")
  case True
  then show ?thesis
    by (simp add: generate_amortization_rent(1) [OF ret i])
next
  case False
  have "1 / 100 \<le> py_round2 (base * (1 + g / 100) ^ nat (int i div 12))"
    by (rule py_round2_ge_cent) (rule escalated_rent_ge [OF base g])
  then have "py_round2 (base * (1 + g / 100) ^ nat (int i div 12)) \<noteq> 0" by simp
  with False show ?thesis
    by (simp add: generate_amortization_rent(1) [OF ret i])
qed

lemma vacant_nat:
  assumes "0 \<le> v" and "v \<le> 12"
  shows "vacant v (int k + 1) \<longleftrightarrow> nat (12 - v) \<le> k mod 12"
proof -
  have "int k mod 12 = int (k mod 12)" by (simp add: zmod_int)
  then show ?thesis using assms by (simp add: vacant_def) linarith
qed

text \<open>
  Claim C3, as amended. For a schedule generated with \<open>vacancy_months = v\<close> in
  \<open>[0, 12]\<close>, a base rent of at least \<open>0.01\<close> and a rent increase that is not negative
  (so that no escalated rent rounds to \<open>0.00\<close>): Rent Received is \<open>0\<close> exactly in the
  rows with \<open>(month - 1) mod 12 \<ge> 12 - v\<close>, the last \<open>v\<close> positions of each cycle of 12
  months; exactly \<open>v\<close> of every 12 consecutive rows have Rent Received \<open>0\<close>; and with
  \<open>v = 0\<close> no row has.
\<close>

theorem vacancy_positions:
  assumes ret: "generate_amortization pv dpp rate T base g v = Inr (df, emi)"
    and v: "0 \<le> v" "v \<le> 12"
    and base: "1 / 100 \<le> base" and g: "0 \<le> g"
  shows "(\<forall>i < length df.
            Rent_Received (df ! i) = 0 \<longleftrightarrow> (Month (df ! i) - 1) mod 12 \<ge> 12 - v) \<and>
         (\<forall>i. i + 12 \<le> length df \<longrightarrow>
            length (filter (\<lambda>r. Rent_Received r = 0) (take 12 (drop i df))) = nat v) \<and>
         (v = 0 \<longrightarrow> (\<forall>i < length df. Rent_Received (df ! i) \<noteq> 0))"
proof (intro conjI allI impI)
  fix i assume i: "i < length df"
  show "Rent_Received (df ! i) = 0 \<longleftrightarrow> (Month (df ! i) - 1) mod 12 \<ge> 12 - v"
    using rent_zero_iff_vacant [OF ret base g i]
    by (simp add: generate_amortization_rent(2) [OF ret i] vacant_def)
next
  fix i assume window: "i + 12 \<le> length df"
  have "filter (\<lambda>r. Rent_Received r = 0) (take 12 (drop i df)) =
        map (\<lambda>k. df ! k) (filter (\<lambda>k. Rent_Received (df ! k) = 0) [i ..< i + 12])"
    by (simp add: take_drop_nth [OF window] filter_map comp_def)
  also have "filter (\<lambda>k. Rent_Received (df ! k) = 0) [i ..< i + 12] =
             filter (\<lambda>k. nat (12 - v) \<le> k mod 12) [i ..< i + 12]"
  proof (rule filter_cong [OF refl])
    fix k assume "k \<in> set [i ..< i + 12]"
    with window have k: "k < length df" by simp
    show "Rent_Received (df ! k) = 0 \<longleftrightarrow> nat (12 - v) \<le> k mod 12"
      using rent_zero_iff_vacant [OF ret base g k] vacant_nat [OF v] by simp
  qed
  finally have "length (filter (\<lambda>r. Rent_Received r = 0) (take 12 (drop i df))) =
                length (filter (\<lambda>k. nat (12 - v) \<le> k mod 12) [i ..< i + 12])"
    by simp
  also have "\<dots> = length (filter (\<lambda>k. nat (12 - v) \<le> k) [0 ..< 12])"
    by (rule count_mod_window) simp
  also have "\<dots> = 12 - nat (12 - v)"
    by (rule count_ge_upt)
  also have "\<dots> = nat v"
    using v by simp
  finally show "length (filter (\<lambda>r. Rent_Received r = 0) (take 12 (drop i df))) = nat v" .
next
  fix i assume "v = 0" and i: "i < length df"
  then have "\<not> vacant v (int i + 1)"
    by (simp add: vacant_def)
  then show "Rent_Received (df ! i) \<noteq> 0"
    using rent_zero_iff_vacant [OF ret base g i] by simp
qed

theorem vacancy_positions_witness:
  "\<exists>df emi. generate_amortization 1000 0 7 1 75000 5 1 = Inr (df, emi) \<and> length df = 12 \<and>
     length (filter (\<lambda>r. Rent_Received r = 0) (take 12 (drop 0 df))) = 1 \<and>
     Rent_Received (df ! 11) = 0 \<and> Month (df ! 11) = 12 \<and> Rent_Received (df ! 0) \<noteq> 0"
proof -
  obtain df emi where ret: "generate_amortization 1000 0 7 1 75000 5 1 = Inr (df, emi)"
    using generate_amortization_returns [of 7 1 1000 0 75000 5 1] by auto
  have len: "length df = 12"
    using generate_amortization_length [OF ret] by simp
  have m: "Month (df ! 11) = 12" "Month (df ! 0) = 1"
    using generate_amortization_rent(2) [OF ret, of 11] generate_amortization_rent(2) [OF ret, of 0]
    by (simp_all add: len)
  from vacancy_positions [OF ret] have
    a: "\<forall>i < length df. Rent_Received (df ! i) = 0 \<longleftrightarrow> (Month (df ! i) - 1) mod 12 \<ge> 12 - 1"
    and b: "\<forall>i. i + 12 \<le> length df \<longrightarrow>
            length (filter (\<lambda>r. Rent_Received r = 0) (take 12 (drop i df))) = nat 1"
    by simp_all
  from a len m have "Rent_Received (df ! 11) = 0" "Rent_Received (df ! 0) \<noteq> 0"
    by simp_all
  moreover from b len
  have "length (filter (\<lambda>r. Rent_Received r = 0) (take 12 (drop 0 df))) = 1"
    by (metis add_0 le_refl nat_1 One_nat_def)
  ultimately show ?thesis using ret len m by simp
qed

text \<open>
  Claim C3 as stated, for every positive base rent, fails for a base rent below half a
  cent: with a rent of \<open>0.001\<close> and no vacancy, month 1 is not vacant, and its row
  holds Rent Received \<open>round(0.001, 2) = 0\<close>.
\<close>

theorem vacancy_zero_rent_counterexample:
  "length (returned_rows (generate_amortization 1000 0 7 1 (1 / 1000) 0 0)) = 12 \<and>
   Month (returned_rows (generate_amortization 1000 0 7 1 (1 / 1000) 0 0) ! 0) = 1 \<and>
   Rent_Received (returned_rows (generate_amortization 1000 0 7 1 (1 / 1000) 0 0) ! 0) = 0 \<and>
   \<not> ((1 - 1) mod 12 \<ge> 12 - (0::int)) \<and>
   length (filter (\<lambda>r. Rent_Received r = 0)
     (take 12 (drop 0 (returned_rows (generate_amortization 1000 0 7 1 (1 / 1000) 0 0))))) \<noteq> 0"
proof -
  obtain df emi where ret: "generate_amortization 1000 0 7 1 (1 / 1000) 0 0 = Inr (df, emi)"
    using generate_amortization_returns [of 7 1 1000 0 "1 / 1000" 0 0] by auto
  have len: "length df = 12"
    using generate_amortization_length [OF ret] by simp
  have m: "Month (df ! 0) = 1"
    using generate_amortization_rent(2) [OF ret, of 0] by (simp add: len)
  have r: "Rent_Received (df ! 0) = 0"
    using generate_amortization_rent(1) [OF ret, of 0]
    by (simp add: len vacant_def py_round2_eval)
  have "take 12 (drop 0 df) = df" using len by simp
  moreover have "df ! 0 \<in> set df" using len by simp
  ultimately have "filter (\<lambda>r. Rent_Received r = 0) (take 12 (drop 0 df)) \<noteq> []"
    using r by (auto simp: filter_empty_conv)
  with ret len m r show ?thesis by simp
qed




section \<open>The outstanding balance\<close>









section \<open>The break-even year\<close>

lemma set_unique [simp]: "set (unique xs) = set xs"
  by (induction xs rule: unique.induct) auto

lemma distinct_unique [simp]: "distinct (unique xs)"
  by (induction xs rule: unique.induct) auto

lemma sorted_unique: "sorted xs \<Longrightarrow> sorted (unique xs)"
  by (induction xs rule: unique.induct) (auto simp: sorted_wrt_filter)

lemma find_upto_Some:
  "List.find Q [1 .. T] = Some y \<longleftrightarrow>
     1 \<le> y \<and> y \<le> T \<and> Q y \<and> (\<forall>y'. 1 \<le> y' \<and> y' < y \<longrightarrow> \<not> Q y')"
proof
  assume "List.find Q [1 .. T] = Some y"
  then obtain i where i: "i < length [1 .. T]" and q: "Q ([1 .. T] ! i)"
    and y: "y = [1 .. T] ! i" and first: "\<forall>j<i. \<not> Q ([1 .. T] ! j)"
    unfolding find_Some_iff by blast
  from i have yi: "y = 1 + int i" by (simp add: y)
  have "\<not> Q y'" if "1 \<le> y'" "y' < y" for y'
  proof -
    from that yi have j: "nat (y' - 1) < i" by linarith
    with i that have "[1 .. T] ! nat (y' - 1) = y'" by simp
    with first j show ?thesis by metis
  qed
  with i q y yi show "1 \<le> y \<and> y \<le> T \<and> Q y \<and> (\<forall>y'. 1 \<le> y' \<and> y' < y \<longrightarrow> \<not> Q y')"
    by simp
next
  assume r: "1 \<le> y \<and> y \<le> T \<and> Q y \<and> (\<forall>y'. 1 \<le> y' \<and> y' < y \<longrightarrow> \<not> Q y')"
  define i where "i = nat (y - 1)"
  from r have i: "i < length [1 .. T]" and y: "[1 .. T] ! i = y"
    by (simp_all add: i_def)
  have "\<not> Q ([1 .. T] ! j)" if "j < i" for j
  proof -
    from that i have "[1 .. T] ! j = 1 + int j" by simp
    moreover from that have "1 + int j < y" by (simp add: i_def)
    ultimately show ?thesis using r by simp
  qed
  with i y r show "List.find Q [1 .. T] = Some y"
    unfolding find_Some_iff by blast
qed

lemma find_upto_None:
  "List.find Q [1 .. T] = None \<longleftrightarrow> (\<forall>y. 1 \<le> y \<and> y \<le> T \<longrightarrow> \<not> Q y)"
  by (auto simp: find_None_iff)

lemma break_even_scan_find:
  "break_even_scan df emi ys =
     List.find (\<lambda>y. case series_mean (map Rent_Received (rows_of_year df y)) of
                       None \<Rightarrow> False | Some m \<Rightarrow> emi \<le> m) ys"
  by (induction ys) (simp_all add: rows_of_year_def Let_def)

lemma filter_upt_interval:
  "b \<le> n \<Longrightarrow> filter (\<lambda>k. a \<le> k \<and> k < b) [0 ..< n] = [a ..< b]"
  by (rule sorted_distinct_set_unique) (auto simp: sorted_wrt_filter)

lemma schedule_years_sorted:
  assumes ret: "generate_amortization pv dpp rate T base g v = Inr (df, emi)"
  shows "sorted (map Year df)"
  unfolding sorted_iff_nth_mono
proof (intro allI impI)
  fix i j assume "i \<le> j" and j: "j < length (map Year df)"
  then have i: "i < length df" and j': "j < length df" by simp_all
  from \<open>i \<le> j\<close> have "int i div 12 \<le> int j div 12" by (simp add: zdiv_mono1)
  then show "map Year df ! i \<le> map Year df ! j"
    using i j' by (simp add: generate_amortization_rent(3) [OF ret])
qed

lemma schedule_years_set:
  assumes ret: "generate_amortization pv dpp rate T base g v = Inr (df, emi)"
  shows "set (map Year df) = {1 .. T}"
proof (intro set_eqI iffI)
  fix y assume "y \<in> set (map Year df)"
  then obtain i where i: "i < length df" and y: "y = Year (df ! i)"
    by (auto simp: in_set_conv_nth)
  from i have "int i < T * 12"
    using generate_amortization_length [OF ret] by simp
  then have "int i div 12 < T" by linarith
  moreover have "0 \<le> int i div 12" by (simp add: pos_imp_zdiv_nonneg_iff)
  ultimately show "y \<in> {1 .. T}"
    by (simp add: y generate_amortization_rent(3) [OF ret i])
next
  fix y assume "y \<in> {1 .. T}"
  then have y: "1 \<le> y" "y \<le> T" by simp_all
  define i where "i = nat (12 * (y - 1))"
  from y have i: "i < length df"
    using generate_amortization_length [OF ret] by (simp add: i_def)
  from y have "int i div 12 + 1 = y" by (simp add: i_def)
  then have "Year (df ! i) = y"
    by (simp add: generate_amortization_rent(3) [OF ret i])
  moreover have "df ! i \<in> set df" using i by simp
  ultimately show "y \<in> set (map Year df)" by force
qed

lemma schedule_unique_years:
  assumes ret: "generate_amortization pv dpp rate T base g v = Inr (df, emi)"
  shows "unique (map Year df) = [1 .. T]"
proof (rule sorted_distinct_set_unique)
  show "sorted (unique (map Year df))"
    by (rule sorted_unique) (rule schedule_years_sorted [OF ret])
  show "set (unique (map Year df)) = set [1 .. T]"
    using schedule_years_set [OF ret] by simp
qed simp_all

lemma rows_of_year_length:
  assumes ret: "generate_amortization pv dpp rate T base g v = Inr (df, emi)"
    and y: "1 \<le> y" "y \<le> T"
  shows "length (rows_of_year df y) = 12"
proof -
  define n where "n = length df"
  define a where "a = 12 * nat (y - 1)"
  have n: "n = nat (T * 12)"
    unfolding n_def by (rule generate_amortization_length [OF ret])
  have bound: "a + 12 \<le> n" using y by (simp add: a_def n)
  have "rows_of_year df y = filter (\<lambda>r. Year r = y) (map (\<lambda>k. df ! k) [0 ..< n])"
    by (simp add: rows_of_year_def n_def map_nth)
  also have "\<dots> = map (\<lambda>k. df ! k) (filter (\<lambda>k. Year (df ! k) = y) [0 ..< n])"
    by (simp add: filter_map comp_def)
  also have "filter (\<lambda>k. Year (df ! k) = y) [0 ..< n] =
             filter (\<lambda>k. a \<le> k \<and> k < a + 12) [0 ..< n]"
  proof (rule filter_cong [OF refl])
    fix k assume "k \<in> set [0 ..< n]"
    then have k: "k < length df" by (simp add: n_def)
    have "int k div 12 + 1 = y \<longleftrightarrow> a \<le> k \<and> k < a + 12"
      using y by (auto simp: a_def)
    then show "Year (df ! k) = y \<longleftrightarrow> a \<le> k \<and> k < a + 12"
      by (simp add: generate_amortization_rent(3) [OF ret k])
  qed
  also have "\<dots> = [a ..< a + 12]"
    by (rule filter_upt_interval [OF bound])
  finally show ?thesis by simp
qed

lemma amortization_rows_rents:
  "map Rent_Received (amortization_rows emi mr base g v ms bal) =
   map (\<lambda>m. py_round2 (if vacant v m then 0 else base * (1 + g / 100) ^ nat ((m - 1) div 12))) ms"
  by (induction ms arbitrary: bal) (simp_all add: Let_def vacant_def)

text \<open>
  Claim C6. For a generated schedule every year \<open>1 .. tenure_years\<close> has 12 rows, and
  the break-even year is the smallest year of \<open>1 .. tenure_years\<close>, scanned in
  ascending order, whose mean Rent Received over its rows is at least \<open>emi\<close>; it is
  \<open>None\<close> exactly when no year of the tenure qualifies.
\<close>

theorem break_even_year_first_qualifying:
  assumes ret: "generate_amortization pv dpp rate T base g v = Inr (df, emi)"
  shows "(\<forall>y. 1 \<le> y \<and> y \<le> T \<longrightarrow> length (rows_of_year df y) = 12) \<and>
         (\<forall>y. break_even_year df emi = Some y \<longleftrightarrow>
                1 \<le> y \<and> y \<le> T \<and> emi \<le> year_rent_mean df y \<and>
                (\<forall>y'. 1 \<le> y' \<and> y' < y \<longrightarrow> year_rent_mean df y' < emi)) \<and>
         (break_even_year df emi = None \<longleftrightarrow>
            (\<forall>y. 1 \<le> y \<and> y \<le> T \<longrightarrow> year_rent_mean df y < emi))"
proof -
  define Q where
    "Q = (\<lambda>y. case series_mean (map Rent_Received (rows_of_year df y)) of
                 None \<Rightarrow> False | Some m \<Rightarrow> emi \<le> m)"
  have len: "length (rows_of_year df y) = 12" if "1 \<le> y" "y \<le> T" for y
    using that by (rule rows_of_year_length [OF ret])
  have Q: "Q y \<longleftrightarrow> emi \<le> year_rent_mean df y" if "1 \<le> y" "y \<le> T" for y
  proof -
    from len [OF that] have "rows_of_year df y \<noteq> []" by auto
    then show ?thesis
      by (simp add: Q_def series_mean_def year_rent_mean_def)
  qed
  have scan: "break_even_year df emi = List.find Q [1 .. T]"
    by (simp add: break_even_year_def break_even_scan_find schedule_unique_years [OF ret] Q_def)
  have some: "break_even_year df emi = Some y \<longleftrightarrow>
                1 \<le> y \<and> y \<le> T \<and> emi \<le> year_rent_mean df y \<and>
                (\<forall>y'. 1 \<le> y' \<and> y' < y \<longrightarrow> year_rent_mean df y' < emi)" for y
  proof (cases "1 \<le> y \<and> y \<le> T")
    case True
    then have "(\<forall>y'. 1 \<le> y' \<and> y' < y \<longrightarrow> \<not> Q y') \<longleftrightarrow>
               (\<forall>y'. 1 \<le> y' \<and> y' < y \<longrightarrow> year_rent_mean df y' < emi)"
      using Q by (auto simp: not_le)
    with True show ?thesis
      unfolding scan find_upto_Some by (simp add: Q)
  next
    case False
    then show ?thesis
      unfolding scan find_upto_Some by auto
  qed
  have none: "break_even_year df emi = None \<longleftrightarrow>
                (\<forall>y. 1 \<le> y \<and> y \<le> T \<longrightarrow> year_rent_mean df y < emi)"
    unfolding scan find_upto_None using Q by (auto simp: not_le)
  from len some none show ?thesis by blast
qed

theorem break_even_year_first_qualifying_witness:
  "\<exists>df emi. generate_amortization 1000 0 7 1 100 5 1 = Inr (df, emi) \<and>
     length (rows_of_year df 1) = 12 \<and> year_rent_mean df 1 = 275 / 3 \<and> emi \<le> 275 / 3 \<and>
     break_even_year df emi = Some 1"
proof -
  obtain df emi where ret: "generate_amortization 1000 0 7 1 100 5 1 = Inr (df, emi)"
    using generate_amortization_returns [of 7 1 1000 0 100 5 1] by auto
  note facts = first_row_1000_7_1 [OF ret]
  from break_even_year_first_qualifying [OF ret]
  have len: "\<forall>y. 1 \<le> y \<and> y \<le> 1 \<longrightarrow> length (rows_of_year df y) = 12"
    and some: "\<forall>y. break_even_year df emi = Some y \<longleftrightarrow>
                1 \<le> y \<and> y \<le> 1 \<and> emi \<le> year_rent_mean df y \<and>
                (\<forall>y'. 1 \<le> y' \<and> y' < y \<longrightarrow> year_rent_mean df y' < emi)"
    by blast+
  from len have len1: "length (rows_of_year df 1) = 12" by simp
  have "Year r = 1" if "r \<in> set df" for r
  proof -
    from that obtain i where i: "i < length df" and r: "r = df ! i"
      by (auto simp: in_set_conv_nth)
    from i have "int i div 12 = 0" by (simp add: facts(1))
    then show ?thesis by (simp add: r generate_amortization_rent(3) [OF ret i])
  qed
  then have all: "rows_of_year df 1 = df"
    by (simp add: rows_of_year_def)
  have months: "[1 .. 1 * 12] = [1, 2, 3, 4, 5, 6, 7, 8, 9, 10, 11, 12 :: int]"
    by (simp add: upto_rec1)
  have "map Rent_Received df = [100, 100, 100, 100, 100, 100, 100, 100, 100, 100, 100, 0]"
    unfolding generate_amortization_cases(2) [OF ret] amortization_rows_rents months list.map
    by (simp add: vacant_def py_round2_eval)
  then have mean: "year_rent_mean df 1 = 275 / 3"
    by (simp add: year_rent_mean_def all facts(1))
  have emi: "emi \<le> 275 / 3" by (simp add: facts(2))
  from some have "break_even_year df emi = Some 1 \<longleftrightarrow> emi \<le> year_rent_mean df 1"
    by simp
  with mean emi have "break_even_year df emi = Some 1" by simp
  with ret len1 mean emi show ?thesis by blast
qed

end
